theory Spec2Isabelle
  imports Main "HOL-Library.AList" "HOL-Library.Sublist"
begin

section \<open>The directory CSV loader of utils/io_helpers.py\<close>

text \<open>
  The module holds one function, \<^verbatim>\<open>read_all_csvs(folder_path)\<close>. It calls
  \<^verbatim>\<open>os.path.isdir\<close>, \<^verbatim>\<open>os.path.join\<close>, \<^verbatim>\<open>glob.glob\<close>,
  \<^verbatim>\<open>os.path.basename\<close>, \<^verbatim>\<open>os.path.splitext\<close> and \<^verbatim>\<open>pandas.read_csv\<close>.
  The pure path functions are embedded as CPython's \<^verbatim>\<open>posixpath\<close> writes them; the
  functions that read the file system take their answers from an environment record.

  A Python \<^verbatim>\<open>str\<close> is a \<^typ>\<open>string\<close>: one \<^typ>\<open>char\<close> per code point, so the model
  covers the code points below 256 (the loader's own messages need U+00E3 only).
\<close>

subsection \<open>String helpers\<close>

definition sep :: char where
  "sep = CHR ''/''"

definition extsep :: char where
  "extsep = CHR ''.''"

text \<open>\<^verbatim>\<open>s.rfind(c)\<close> for a one-character \<^verbatim>\<open>c\<close>: the highest index, or -1.\<close>

fun rfind :: "string \<Rightarrow> char \<Rightarrow> int" where
  "rfind [] c = - 1"
| "rfind (x # xs) c =
     (let r = rfind xs c
      in if 0 \<le> r then r + 1 else if x = c then 0 else - 1)"

definition startswith :: "string \<Rightarrow> string \<Rightarrow> bool" where
  "startswith s p = prefix p s"

definition endswith :: "string \<Rightarrow> string \<Rightarrow> bool" where
  "endswith s p = suffix p s"

text \<open>\<^verbatim>\<open>s.rstrip(c)\<close> for a one-character \<^verbatim>\<open>c\<close>.\<close>

definition rstrip :: "string \<Rightarrow> char \<Rightarrow> string" where
  "rstrip s c = rev (dropWhile (\<lambda>x. x = c) (rev s))"

text \<open>The slices \<^verbatim>\<open>p[:i]\<close>, \<^verbatim>\<open>p[i:]\<close> and \<^verbatim>\<open>p[i:j]\<close>, for indices that are not negative.\<close>

definition slice_to :: "string \<Rightarrow> int \<Rightarrow> string" where
  "slice_to p i = take (nat i) p"

definition slice_from :: "string \<Rightarrow> int \<Rightarrow> string" where
  "slice_from p i = drop (nat i) p"

definition slice :: "string \<Rightarrow> int \<Rightarrow> int \<Rightarrow> string" where
  "slice p i j = take (nat j - nat i) (drop (nat i) p)"

text \<open>The f-string fragment \<^verbatim>\<open>'{x}'\<close>: the text between two apostrophes.\<close>

definition quoted :: "string \<Rightarrow> string" where
  "quoted s = [CHR 0x27] @ s @ [CHR 0x27]"

subsection \<open>posixpath\<close>

text \<open>
  \<^verbatim>\<open>
  def join(a, *p):
      sep = '/'
      path = a
      for b in p:
          if b.startswith(sep): path = b
          elif not path or path.endswith(sep): path += b
          else: path += sep + b
      return path
  \<close>
  with one \<^verbatim>\<open>b\<close>, as the loader and glob call it.
\<close>

definition join :: "string \<Rightarrow> string \<Rightarrow> string" where
  "join a b =
     (if startswith b [sep] then b
      else if a = [] \<or> endswith a [sep] then a @ b
      else a @ [sep] @ b)"

text \<open>
  \<^verbatim>\<open>
  def split(p):
      i = p.rfind(sep) + 1
      head, tail = p[:i], p[i:]
      if head and head != sep*len(head):
          head = head.rstrip(sep)
      return head, tail
  \<close>
\<close>

definition split_path :: "string \<Rightarrow> string \<times> string" where
  "split_path p =
     (let i = rfind p sep + 1;
          head = slice_to p i;
          tail = slice_from p i
      in (if head \<noteq> [] \<and> head \<noteq> replicate (length head) sep
          then rstrip head sep else head, tail))"

text \<open>\<^verbatim>\<open>def basename(p): i = p.rfind(sep) + 1; return p[i:]\<close>\<close>

definition basename :: "string \<Rightarrow> string" where
  "basename p = slice_from p (rfind p sep + 1)"

text \<open>
  \<^verbatim>\<open>
  def _splitext(p, sep, altsep, extsep):
      sepIndex = p.rfind(sep)
      dotIndex = p.rfind(extsep)
      if dotIndex > sepIndex:
          # skip all leading dots
          filenameIndex = sepIndex + 1
          while filenameIndex < dotIndex:
              if p[filenameIndex:filenameIndex+1] != extsep:
                  return p[:dotIndex], p[dotIndex:]
              filenameIndex += 1
      return p, p[:0]
  \<close>
  (posixpath has no \<^verbatim>\<open>altsep\<close>). The loop is \<open>splitext_scan\<close>: it answers whether
  the early return inside the loop is taken.
\<close>

function splitext_scan :: "string \<Rightarrow> int \<Rightarrow> int \<Rightarrow> bool" where
  "splitext_scan p filenameIndex dotIndex =
     (if filenameIndex < dotIndex
      then (if slice p filenameIndex (filenameIndex + 1) \<noteq> [extsep] then True
            else splitext_scan p (filenameIndex + 1) dotIndex)
      else False)"
  by pat_completeness auto
termination
  by (relation "measure (\<lambda>(p, i, d). nat (d - i))") auto

declare splitext_scan.simps [simp del]

definition splitext :: "string \<Rightarrow> string \<times> string" where
  "splitext p =
     (let sepIndex = rfind p sep;
          dotIndex = rfind p extsep
      in if dotIndex > sepIndex \<and> splitext_scan p (sepIndex + 1) dotIndex
         then (slice_to p dotIndex, slice_from p dotIndex)
         else (p, []))"

subsection \<open>The environment: file system and parser\<close>

text \<open>
  An exception raised inside \<^verbatim>\<open>pandas.read_csv\<close>, as far as the loader looks at it:
  its class and \<^verbatim>\<open>str(e)\<close>. The loader catches \<^verbatim>\<open>Exception\<close>; every failure of
  opening, decoding or parsing a file is of that class.
\<close>

datatype exn = Exn (exn_class: string) (exn_str: string)

text \<open>
  What the loader asks of the world outside:
  \<^item> \<open>isdir p\<close>: the answer of \<^verbatim>\<open>os.path.isdir(p)\<close>;
  \<^item> \<open>lexists p\<close>: the answer of \<^verbatim>\<open>os.path.lexists(p)\<close>;
  \<^item> \<open>scandir p\<close>: the entry names \<^verbatim>\<open>os.scandir(p)\<close> yields, in its order, and the
    empty list where it raises \<^verbatim>\<open>OSError\<close> (glob swallows that error);
  \<^item> \<open>expand_dirs pat\<close>: the directories glob's recursive expansion
    \<^verbatim>\<open>_iglob(pat, ..., dironly=True)\<close> yields for a directory pattern that
    holds a wildcard character;
  \<^item> \<open>read_csv p\<close>: the outcome of \<^verbatim>\<open>pandas.read_csv(p)\<close>: the exception raised, or
    the DataFrame. pandas resolves the string by rules of its own before it opens
    anything (it expands a leading \<^verbatim>\<open>~\<close> to the home directory, for one), so the
    outcome belongs to the path string, not to the directory entry the string was built
    from, and nothing is assumed of it.
  The DataFrame type is a parameter: the loader never looks inside a table.
\<close>

record 'df env =
  isdir :: "string \<Rightarrow> bool"
  lexists :: "string \<Rightarrow> bool"
  scandir :: "string \<Rightarrow> string list"
  expand_dirs :: "string \<Rightarrow> string list"
  read_csv :: "string \<Rightarrow> exn + 'df"

subsection \<open>fnmatch and glob\<close>

text \<open>
  \<^verbatim>\<open>fnmatch\<close> on POSIX (where \<^verbatim>\<open>normcase\<close> is the identity, so the match is
  case-sensitive) for a pattern of literal characters, \<^verbatim>\<open>*\<close> and \<^verbatim>\<open>?\<close>; the whole
  name has to match. Bracket expressions are left out: the one pattern matched against
  entry names here is the loader's \<^verbatim>\<open>*.csv\<close>.
\<close>

fun fnmatch :: "string \<Rightarrow> string \<Rightarrow> bool" where
  "fnmatch [] [] = True"
| "fnmatch (c # cs) [] = False"
| "fnmatch [] (p # ps) = (p = CHR ''*'' \<and> fnmatch [] ps)"
| "fnmatch (c # cs) (p # ps) =
     (if p = CHR ''*'' then fnmatch (c # cs) ps \<or> fnmatch cs (p # ps)
      else if p = CHR ''?'' then fnmatch cs ps
      else c = p \<and> fnmatch cs ps)"

text \<open>\<^verbatim>\<open>magic_check = re.compile('([*?[])')\<close>; \<^verbatim>\<open>has_magic(s)\<close> searches \<^verbatim>\<open>s\<close> for it.\<close>

definition has_magic :: "string \<Rightarrow> bool" where
  "has_magic s = list_ex (\<lambda>c. c = CHR ''*'' \<or> c = CHR ''?'' \<or> c = CHR ''['') s"

text \<open>
  \<^verbatim>\<open>def _ishidden(path): return path[0] in ('.', b'.'[0])\<close>. It is applied to the
  pattern's last component and to entry names, neither of which is empty.
\<close>

definition ishidden :: "string \<Rightarrow> bool" where
  "ishidden path = (case path of [] \<Rightarrow> False | c # _ \<Rightarrow> c = CHR ''.'')"

text \<open>
  \<^verbatim>\<open>
  def _glob1(dirname, pattern, dir_fd, dironly, include_hidden=False):
      names = _listdir(dirname, dir_fd, dironly)
      if include_hidden or not _ishidden(pattern):
          names = (x for x in names if include_hidden or not _ishidden(x))
      return fnmatch.filter(names, pattern)
  \<close>
  with \<^verbatim>\<open>dironly=False\<close> and \<^verbatim>\<open>include_hidden=False\<close>; \<^verbatim>\<open>_listdir\<close> scans
  \<^verbatim>\<open>os.curdir\<close> when \<^verbatim>\<open>dirname\<close> is empty.
\<close>

definition glob1 :: "'df env \<Rightarrow> string \<Rightarrow> string \<Rightarrow> string list" where
  "glob1 e dirname pattern =
     (let names = scandir e (if dirname = [] then ''.'' else dirname);
          names = (if \<not> ishidden pattern then filter (\<lambda>x. \<not> ishidden x) names else names)
      in filter (\<lambda>n. fnmatch n pattern) names)"

text \<open>
  \<^verbatim>\<open>
  def _glob0(dirname, basename, dir_fd, dironly, include_hidden=False):
      if basename:
          if _lexists(_join(dirname, basename), dir_fd): return [basename]
      else:
          if _isdir(dirname, dir_fd): return [basename]
      return []
  \<close>
\<close>

definition glob0 :: "'df env \<Rightarrow> string \<Rightarrow> string \<Rightarrow> string list" where
  "glob0 e dirname base =
     (if base \<noteq> []
      then (if lexists e (join dirname base) then [base] else [])
      else (if isdir e dirname then [base] else []))"

text \<open>
  \<^verbatim>\<open>glob.glob(pathname)\<close> with its defaults (no \<^verbatim>\<open>root_dir\<close>, not recursive, hidden
  entries not included), that is \<^verbatim>\<open>_iglob\<close>:
  \<^verbatim>\<open>
      dirname, basename = os.path.split(pathname)
      if not has_magic(pathname):
          if basename:
              if _lexists(pathname): yield pathname
          else:
              if _isdir(dirname): yield pathname
          return
      if not dirname:
          yield from _glob1(root_dir, basename, dir_fd, dironly)
          return
      if dirname != pathname and has_magic(dirname):
          dirs = _iglob(dirname, root_dir, dir_fd, recursive, True)
      else:
          dirs = [dirname]
      if has_magic(basename): glob_in_dir = _glob1
      else: glob_in_dir = _glob0
      for dirname in dirs:
          for name in glob_in_dir(dirname, basename, dir_fd, dironly):
              yield os.path.join(dirname, name)
  \<close>
  The recursive call on the directory part is the environment's \<open>expand_dirs\<close>;
  the local \<^verbatim>\<open>basename\<close> is \<open>base\<close> below.
\<close>

definition glob :: "'df env \<Rightarrow> string \<Rightarrow> string list" where
  "glob e pathname =
     (let (dirname, base) = split_path pathname
      in if \<not> has_magic pathname
         then (if base \<noteq> []
               then (if lexists e pathname then [pathname] else [])
               else (if isdir e dirname then [pathname] else []))
         else if dirname = [] then glob1 e [] base
         else
           (let dirs = (if dirname \<noteq> pathname \<and> has_magic dirname
                        then expand_dirs e dirname else [dirname]);
                glob_in_dir = (if has_magic base then glob1 e else glob0 e)
            in concat (map (\<lambda>d. map (join d) (glob_in_dir d base)) dirs)))"

subsection \<open>read_all_csvs\<close>

text \<open>
  The three exceptions the loader raises: \<^verbatim>\<open>FileNotFoundError(msg)\<close>,
  \<^verbatim>\<open>ValueError(msg)\<close> and \<^verbatim>\<open>RuntimeError(msg) from e\<close>, the last with its
  \<^verbatim>\<open>__cause__\<close>.
\<close>

datatype error =
    FileNotFoundError string
  | ValueError string
  | RuntimeError string exn

text \<open>
  The calls that touch the file system, in the order the loader makes them; the log
  is the second component of every result.
\<close>

datatype call = IsDir string | Glob string | ReadCsv string

text \<open>The messages of lines 33, 41 and 56 (\<open>CHR 0xE3\<close> is the a with tilde).\<close>

definition msg_not_found :: "string \<Rightarrow> string" where
  "msg_not_found folder_path =
     ''Pasta n'' @ [CHR 0xE3] @ ''o encontrada: '' @ quoted folder_path"

definition msg_no_csv :: "string \<Rightarrow> string" where
  "msg_no_csv folder_path = ''Nenhum arquivo .csv encontrado em: '' @ quoted folder_path"

definition msg_read_error :: "string \<Rightarrow> exn \<Rightarrow> string" where
  "msg_read_error path e = ''Erro ao ler '' @ quoted path @ '': '' @ exn_str e"

text \<open>
  The dictionary \<^verbatim>\<open>dataframes\<close> is an association list in insertion order;
  \<^verbatim>\<open>dataframes[key] = df\<close> is \<^const>\<open>AList.update\<close>, which overwrites the value of a
  key that is present, in place, and appends a new key at the end, as a Python dict does.

  The loop of lines 46 to 59; it stops at the first file whose read raises.
\<close>

fun load_loop ::
  "'df env \<Rightarrow> string list \<Rightarrow> (string \<times> 'df) list \<Rightarrow> call list
     \<Rightarrow> (error + (string \<times> 'df) list) \<times> call list" where
  "load_loop e [] dataframes log = (Inr dataframes, log)"
| "load_loop e (path # rest) dataframes log =
     (let filename = basename path;
          key = fst (splitext filename)
      in case read_csv e path of
           Inl ex \<Rightarrow> (Inl (RuntimeError (msg_read_error path ex) ex), log @ [ReadCsv path])
         | Inr df \<Rightarrow> load_loop e rest (AList.update key df dataframes) (log @ [ReadCsv path]))"

definition csv_pattern :: "string \<Rightarrow> string" where
  "csv_pattern folder_path = join folder_path ''*.csv''"

definition csv_paths :: "'df env \<Rightarrow> string \<Rightarrow> string list" where
  "csv_paths e folder_path = glob e (csv_pattern folder_path)"

definition read_all_csvs ::
  "'df env \<Rightarrow> string \<Rightarrow> (error + (string \<times> 'df) list) \<times> call list" where
  "read_all_csvs e folder_path =
     (if \<not> isdir e folder_path
      then (Inl (FileNotFoundError (msg_not_found folder_path)), [IsDir folder_path])
      else if csv_paths e folder_path = []
      then (Inl (ValueError (msg_no_csv folder_path)),
            [IsDir folder_path, Glob (csv_pattern folder_path)])
      else load_loop e (csv_paths e folder_path) []
             [IsDir folder_path, Glob (csv_pattern folder_path)])"

subsection \<open>Notions the statements use\<close>

text \<open>
  The directory part glob splits off the loader's pattern, and the directory it scans
  for it (\<^verbatim>\<open>os.curdir\<close> when that part is empty).
\<close>

definition glob_dir :: "string \<Rightarrow> string" where
  "glob_dir folder_path = fst (split_path (csv_pattern folder_path))"

definition listed_dir :: "string \<Rightarrow> string" where
  "listed_dir folder_path = (if glob_dir folder_path = [] then ''.'' else glob_dir folder_path)"

text \<open>An entry name ends with the suffix \<^verbatim>\<open>.csv\<close> and does not begin with a dot.\<close>

definition is_csv_entry :: "string \<Rightarrow> bool" where
  "is_csv_entry name \<longleftrightarrow> endswith name ''.csv'' \<and> \<not> ishidden name"

text \<open>Lines 48 and 49: the key the loop derives from a path.\<close>

definition key_of :: "string \<Rightarrow> string" where
  "key_of path = fst (splitext (basename path))"



text \<open>Whether reading a path returns a table, the table, and one iteration's store.\<close>

definition read_ok :: "'df env \<Rightarrow> string \<Rightarrow> bool" where
  "read_ok e path = (\<not> isl (read_csv e path))"

definition table_of :: "'df env \<Rightarrow> string \<Rightarrow> 'df" where
  "table_of e path = projr (read_csv e path)"

definition store :: "'df env \<Rightarrow> string \<Rightarrow> (string \<times> 'df) list \<Rightarrow> (string \<times> 'df) list" where
  "store e path dataframes = AList.update (key_of path) (table_of e path) dataframes"

subsection \<open>Concrete file systems\<close>

text \<open>A table, for the examples: its columns by name, in order.\<close>

type_synonym table = "(string \<times> int list) list"

definition sales_table :: table where
  "sales_table = [(''id'', [1, 2]), (''amount'', [10, 20])]"

text \<open>
  Exceptions of the examples. The text of an \<^verbatim>\<open>OSError\<close> ends with \<^verbatim>\<open>repr\<close> of the path,
  which for the paths used below (no apostrophe, no backslash) is the path between two
  apostrophes.
\<close>

definition parser_error :: exn where
  "parser_error =
     Exn ''ParserError''
       (''Error tokenizing data. C error: Expected 2 fields in line 3, saw 3'' @ [CHR 0x0A])"

definition no_such_file :: "string \<Rightarrow> exn" where
  "no_such_file p =
     Exn ''FileNotFoundError'' (''[Errno 2] No such file or directory: '' @ quoted p)"

definition is_a_directory :: "string \<Rightarrow> exn" where
  "is_a_directory p =
     Exn ''IsADirectoryError'' (''[Errno 21] Is a directory: '' @ quoted p)"

text \<open>
  The specification's scenario: data/ holds sales.csv and notes.txt, and empty/ is an
  empty directory. Beside them docs/ holds notes.txt and X.CSV. Nothing else exists
  (missing/ in particular).
\<close>

definition fs_data :: "table env" where
  "fs_data = \<lparr>
     isdir = (\<lambda>p. p \<in> {''data'', ''data/'', ''empty'', ''empty/'', ''docs'', ''docs/''}),
     lexists = (\<lambda>p. p \<in> {''data'', ''data/'', ''empty'', ''empty/'', ''docs'', ''docs/'',
                            ''data/sales.csv'', ''data/notes.txt'',
                            ''docs/notes.txt'', ''docs/X.CSV''}),
     scandir = (\<lambda>p. if p \<in> {''data'', ''data/''} then [''sales.csv'', ''notes.txt'']
                     else if p \<in> {''docs'', ''docs/''} then [''notes.txt'', ''X.CSV'']
                     else []),
     expand_dirs = (\<lambda>p. []),
     read_csv = (\<lambda>p. if p \<in> {''data/sales.csv'', ''docs/X.CSV''} then Inr sales_table
                      else if p \<in> {''data/notes.txt'', ''docs/notes.txt''}
                      then Inr [(''remember the milk'', [])]
                      else if p \<in> {''data'', ''data/'', ''empty'', ''empty/'', ''docs'', ''docs/''}
                      then Inl (is_a_directory p)
                      else Inl (no_such_file p)) \<rparr>"

text \<open>in/ holds good.csv, bad.csv (malformed) and late.csv, scanned in that order.\<close>

definition fs_bad :: "table env" where
  "fs_bad = \<lparr>
     isdir = (\<lambda>p. p = ''in''),
     lexists = (\<lambda>p. p \<in> {''in'', ''in/good.csv'', ''in/bad.csv'', ''in/late.csv''}),
     scandir = (\<lambda>p. if p = ''in'' then [''good.csv'', ''bad.csv'', ''late.csv''] else []),
     expand_dirs = (\<lambda>p. []),
     read_csv = (\<lambda>p. if p = ''in/good.csv'' \<or> p = ''in/late.csv'' then Inr sales_table
                      else if p = ''in/bad.csv'' then Inl parser_error
                      else if p = ''in'' then Inl (is_a_directory p)
                      else Inl (no_such_file p)) \<rparr>"

definition vendas_table :: table where
  "vendas_table = [(''produto'', [7, 8, 9])]"


text \<open>
  The working directory holds two directories, one named \<^verbatim>\<open>a*\<close> and one named
  \<^verbatim>\<open>ab\<close>, each with a file x.csv. As a pattern, \<^verbatim>\<open>a*\<close> matches both names.
\<close>

definition fs_twins :: "table env" where
  "fs_twins = \<lparr>
     isdir = (\<lambda>p. p \<in> {''.'', ''a*'', ''ab''}),
     lexists = (\<lambda>p. p \<in> {''.'', ''a*'', ''ab'', ''a*/x.csv'', ''ab/x.csv''}),
     scandir = (\<lambda>p. if p = ''.'' then [''a*'', ''ab'']
                     else if p = ''a*'' \<or> p = ''ab'' then [''x.csv''] else []),
     expand_dirs = (\<lambda>p. if p = ''a*'' then [''a*'', ''ab''] else []),
     read_csv = (\<lambda>p. if p = ''a*/x.csv'' then Inr vendas_table
                      else if p = ''ab/x.csv'' then Inr sales_table
                      else if p \<in> {''.'', ''a*'', ''ab''} then Inl (is_a_directory p)
                      else Inl (no_such_file p)) \<rparr>"

text \<open>d/ holds the files .a.csv and b.csv, both well-formed.\<close>

definition fs_hidden :: "table env" where
  "fs_hidden = \<lparr>
     isdir = (\<lambda>p. p = ''d''),
     lexists = (\<lambda>p. p \<in> {''d'', ''d/.a.csv'', ''d/b.csv''}),
     scandir = (\<lambda>p. if p = ''d'' then [''.a.csv'', ''b.csv''] else []),
     expand_dirs = (\<lambda>p. []),
     read_csv = (\<lambda>p. if p = ''d/.a.csv'' then Inr vendas_table
                      else if p = ''d/b.csv'' then Inr sales_table
                      else if p = ''d'' then Inl (is_a_directory p)
                      else Inl (no_such_file p)) \<rparr>"

text \<open>d/ holds the file b.csv and an empty subdirectory named .cache.csv.\<close>

definition fs_hidden_dir :: "table env" where
  "fs_hidden_dir = \<lparr>
     isdir = (\<lambda>p. p \<in> {''d'', ''d/.cache.csv''}),
     lexists = (\<lambda>p. p \<in> {''d'', ''d/.cache.csv'', ''d/b.csv''}),
     scandir = (\<lambda>p. if p = ''d'' then [''.cache.csv'', ''b.csv''] else []),
     expand_dirs = (\<lambda>p. []),
     read_csv = (\<lambda>p. if p = ''d/b.csv'' then Inr sales_table
                      else if p \<in> {''d'', ''d/.cache.csv''} then Inl (is_a_directory p)
                      else Inl (no_such_file p)) \<rparr>"

text \<open>d/ holds a.csv, then a subdirectory named sub.csv, then z.csv.\<close>

definition fs_subdir :: "table env" where
  "fs_subdir = \<lparr>
     isdir = (\<lambda>p. p \<in> {''d'', ''d/sub.csv''}),
     lexists = (\<lambda>p. p \<in> {''d'', ''d/a.csv'', ''d/sub.csv'', ''d/z.csv''}),
     scandir = (\<lambda>p. if p = ''d'' then [''a.csv'', ''sub.csv'', ''z.csv''] else []),
     expand_dirs = (\<lambda>p. []),
     read_csv = (\<lambda>p. if p = ''d/a.csv'' \<or> p = ''d/z.csv'' then Inr sales_table
                      else if p \<in> {''d'', ''d/sub.csv''} then Inl (is_a_directory p)
                      else Inl (no_such_file p)) \<rparr>"

text \<open>
  The working directory holds an empty directory named \<^verbatim>\<open>a*\<close> and a directory
  \<^verbatim>\<open>ab\<close> with the file x.csv. As a pattern, \<^verbatim>\<open>a*\<close> matches both directory names.
\<close>

definition fs_star :: "table env" where
  "fs_star = \<lparr>
     isdir = (\<lambda>p. p \<in> {''.'', ''a*'', ''ab''}),
     lexists = (\<lambda>p. p \<in> {''.'', ''a*'', ''ab'', ''ab/x.csv''}),
     scandir = (\<lambda>p. if p = ''.'' then [''a*'', ''ab'']
                     else if p = ''ab'' then [''x.csv''] else []),
     expand_dirs = (\<lambda>p. if p = ''a*'' then [''a*'', ''ab''] else []),
     read_csv = (\<lambda>p. if p = ''ab/x.csv'' then Inr sales_table
                      else if p \<in> {''.'', ''a*'', ''ab''} then Inl (is_a_directory p)
                      else Inl (no_such_file p)) \<rparr>"

text \<open>
  The working directory holds a directory named \<^verbatim>\<open>~\<close> with an empty subdirectory
  sub.csv and nothing else, and the home directory /home/u holds a well-formed file
  sub.csv and nothing else. For the string \<^verbatim>\<open>~/sub.csv\<close> the directory test looks at
  the subdirectory, while \<^verbatim>\<open>pandas.read_csv\<close> expands the tilde and reads the file in
  the home directory.
\<close>

definition fs_tilde :: "table env" where
  "fs_tilde = \<lparr>
     isdir = (\<lambda>p. p \<in> {''~'', ''~/sub.csv'', ''/home/u''}),
     lexists = (\<lambda>p. p \<in> {''~'', ''~/sub.csv'', ''/home/u'', ''/home/u/sub.csv''}),
     scandir = (\<lambda>p. if p \<in> {''~'', ''/home/u''} then [''sub.csv''] else []),
     expand_dirs = (\<lambda>p. []),
     read_csv = (\<lambda>p. if p \<in> {''~/sub.csv'', ''/home/u/sub.csv''} then Inr sales_table
                      else if p \<in> {''~'', ''/home/u''} then Inl (is_a_directory ''/home/u'')
                      else Inl (no_such_file p)) \<rparr>"

section \<open>Facts about the path functions, glob and the loop\<close>

lemma rfind_notin: "c \<notin> set s \<Longrightarrow> rfind s c = - 1"
  by (induction s) auto

lemma rfind_snoc_tail: "c \<notin> set t \<Longrightarrow> rfind (h @ c # t) c = int (length h)"
  by (induction h) (auto simp: Let_def rfind_notin)

lemma fnmatch_star: "fnmatch n (CHR ''*'' # ps) \<longleftrightarrow> (\<exists>k\<le>length n. fnmatch (drop k n) ps)"
proof (induction n)
  case Nil
  then show ?case by simp
next
  case (Cons c cs)
  have "(\<exists>k\<le>length (c # cs). fnmatch (drop k (c # cs)) ps)
        \<longleftrightarrow> fnmatch (c # cs) ps \<or> (\<exists>k\<le>length cs. fnmatch (drop k cs) ps)"
    (is "?L \<longleftrightarrow> ?R")
  proof
    assume ?L
    then obtain k where k: "k \<le> length (c # cs)" "fnmatch (drop k (c # cs)) ps" by blast
    show ?R
    proof (cases k)
      case 0
      with k show ?thesis by simp
    next
      case (Suc k')
      with k show ?thesis by auto
    qed
  next
    assume ?R
    then show ?L
    proof
      assume "fnmatch (c # cs) ps"
      then have "fnmatch (drop 0 (c # cs)) ps" by simp
      then show ?L by blast
    next
      assume "\<exists>k\<le>length cs. fnmatch (drop k cs) ps"
      then obtain k where "k \<le> length cs" "fnmatch (drop k cs) ps" by blast
      then have "Suc k \<le> length (c # cs)" "fnmatch (drop (Suc k) (c # cs)) ps" by simp_all
      then show ?L by blast
    qed
  qed
  with Cons show ?case by simp
qed

lemma fnmatch_literal:
  "CHR ''*'' \<notin> set ps \<Longrightarrow> CHR ''?'' \<notin> set ps \<Longrightarrow> fnmatch n ps \<longleftrightarrow> n = ps"
  by (induction n ps rule: fnmatch.induct) auto

lemma fnmatch_star_csv: "fnmatch n ''*.csv'' \<longleftrightarrow> endswith n ''.csv''"
proof -
  have "fnmatch n ''*.csv'' \<longleftrightarrow> (\<exists>k\<le>length n. drop k n = ''.csv'')"
    by (simp add: fnmatch_star fnmatch_literal)
  also have "\<dots> \<longleftrightarrow> suffix ''.csv'' n"
  proof
    assume "\<exists>k\<le>length n. drop k n = ''.csv''"
    then obtain k where "drop k n = ''.csv''" by blast
    then have "n = take k n @ ''.csv''" by (metis append_take_drop_id)
    then show "suffix ''.csv'' n" by (metis suffixI)
  next
    assume "suffix ''.csv'' n"
    then obtain zs where n: "n = zs @ ''.csv''" by (auto simp: suffix_def)
    then have "drop (length zs) n = ''.csv''" "length zs \<le> length n" by simp_all
    then show "\<exists>k\<le>length n. drop k n = ''.csv''" by blast
  qed
  finally show ?thesis by (simp add: endswith_def)
qed

lemma csv_pattern_cases:
  "csv_pattern f = (if f = [] \<or> endswith f [sep] then f @ ''*.csv'' else f @ [sep] @ ''*.csv'')"
  by (simp add: csv_pattern_def join_def startswith_def sep_def)

lemma csv_pattern_shape:
  "csv_pattern f = ''*.csv'' \<and> f = [] \<or> (\<exists>h. csv_pattern f = h @ sep # ''*.csv'' \<and> (f = h @ [sep] \<or> f = h \<and> f \<noteq> [] \<and> \<not> endswith f [sep]))"
proof (cases "f = []")
  case True
  then show ?thesis by (simp add: csv_pattern_cases)
next
  case False
  show ?thesis
  proof (cases "endswith f [sep]")
    case True
    then obtain h where "f = h @ [sep]" by (auto simp: endswith_def suffix_def)
    then show ?thesis by (simp add: csv_pattern_cases endswith_def)
  next
    case False
    with \<open>f \<noteq> []\<close> show ?thesis by (simp add: csv_pattern_cases)
  qed
qed

lemma sep_notin_star_csv: "sep \<notin> set ''*.csv''"
  by (simp add: sep_def)

lemma split_path_snoc:
  "sep \<notin> set t \<Longrightarrow> split_path (h @ sep # t) =
     (if h @ [sep] \<noteq> replicate (Suc (length h)) sep then rstrip (h @ [sep]) sep else h @ [sep], t)"
  by (simp add: split_path_def rfind_snoc_tail slice_to_def slice_from_def Let_def nat_add_distrib)

lemma split_path_nosep: "sep \<notin> set t \<Longrightarrow> split_path t = ([], t)"
  by (simp add: split_path_def rfind_notin slice_to_def slice_from_def)

lemmas split_star_csv = split_path_nosep [OF sep_notin_star_csv] split_path_snoc [OF sep_notin_star_csv]

lemma snd_split_csv_pattern: "snd (split_path (csv_pattern f)) = ''*.csv''"
  using csv_pattern_shape [of f]
  by (auto simp: split_star_csv)

lemma rstrip_snoc_sep: "rstrip (h @ [c]) c = rstrip h c"
  by (simp add: rstrip_def)

lemma rstrip_decomp: "\<exists>k. s = rstrip s c @ replicate k c"
proof -
  have "rev s = takeWhile (\<lambda>x. x = c) (rev s) @ dropWhile (\<lambda>x. x = c) (rev s)" by simp
  then have "s = rev (dropWhile (\<lambda>x. x = c) (rev s)) @ rev (takeWhile (\<lambda>x. x = c) (rev s))"
    by (metis rev_append rev_rev_ident)
  moreover have "\<forall>x\<in>set (rev (takeWhile (\<lambda>x. x = c) (rev s))). x = c"
    by (auto dest: set_takeWhileD)
  then have "rev (takeWhile (\<lambda>x. x = c) (rev s)) = replicate (length (takeWhile (\<lambda>x. x = c) (rev s))) c"
    by (metis length_rev replicate_eqI)
  ultimately show ?thesis unfolding rstrip_def by metis
qed

lemma rstrip_noop: "s \<noteq> [] \<Longrightarrow> last s \<noteq> c \<Longrightarrow> rstrip s c = s"
  by (cases s rule: rev_cases) (auto simp: rstrip_def)

lemma glob_dir_eq:
  "glob_dir f = (if f = replicate (length f) sep then f else rstrip f sep)"
proof -
  consider (empty) "csv_pattern f = ''*.csv''" "f = []"
    | (slash) h where "csv_pattern f = h @ sep # ''*.csv''" "f = h @ [sep]"
    | (plain) "csv_pattern f = f @ sep # ''*.csv''" "f \<noteq> []" "\<not> endswith f [sep]"
    using csv_pattern_shape [of f] by blast
  then show ?thesis
  proof cases
    case empty
    then show ?thesis by (simp add: glob_dir_def split_star_csv)
  next
    case slash
    then show ?thesis
      by (simp add: glob_dir_def split_star_csv)
  next
    case plain
    from plain(2,3) have l: "last f \<noteq> sep"
      by (cases f rule: rev_cases) (auto simp: endswith_def)
    then have "f \<noteq> replicate (length f) sep"
      using plain(2) by (metis last_replicate length_0_conv)
    moreover have "f @ [sep] \<noteq> replicate (Suc (length f)) sep"
    proof
      assume "f @ [sep] = replicate (Suc (length f)) sep"
      then have "f @ [sep] = replicate (length f) sep @ [sep]"
        by (simp add: replicate_append_same)
      with calculation show False by simp
    qed
    ultimately show ?thesis
      using plain l by (simp add: glob_dir_def split_star_csv rstrip_snoc_sep rstrip_noop del: replicate_Suc)
  qed
qed

lemma has_magic_append [simp]: "has_magic (a @ b) \<longleftrightarrow> has_magic a \<or> has_magic b"
  by (simp add: has_magic_def list_ex_iff) blast

lemma has_magic_replicate_sep [simp]: "\<not> has_magic (replicate k sep)"
  by (simp add: has_magic_def list_ex_iff sep_def)

lemma has_magic_csv_pattern: "has_magic (csv_pattern f)"
  by (simp add: csv_pattern_cases has_magic_def)

lemma has_magic_rstrip: "has_magic (rstrip s sep) = has_magic s"
proof -
  obtain k where "s = rstrip s sep @ replicate k sep" using rstrip_decomp by blast
  then have "has_magic s = has_magic (rstrip s sep @ replicate k sep)" by simp
  then show ?thesis by simp
qed

lemma has_magic_glob_dir: "has_magic (glob_dir f) = has_magic f"
  by (simp add: glob_dir_eq has_magic_rstrip)

lemma glob_dir_neq_pattern: "glob_dir f \<noteq> csv_pattern f"
proof -
  obtain k where k: "f = rstrip f sep @ replicate k sep" using rstrip_decomp by blast
  have "length (rstrip f sep) \<le> length f" by (subst (2) k) simp
  then have "length (glob_dir f) \<le> length f" by (simp add: glob_dir_eq)
  moreover have "length f < length (csv_pattern f)" by (simp add: csv_pattern_cases)
  ultimately show ?thesis by auto
qed

lemma glob1_star_csv:
  "glob1 e d ''*.csv'' = filter is_csv_entry (scandir e (if d = [] then ''.'' else d))"
  by (auto simp: glob1_def ishidden_def fnmatch_star_csv is_csv_entry_def Let_def intro: filter_cong)

lemma split_csv_pattern: "split_path (csv_pattern f) = (glob_dir f, ''*.csv'')"
  by (metis glob_dir_def prod.collapse snd_split_csv_pattern)

lemma csv_paths_eq:
  "csv_paths e f =
     (if glob_dir f = [] then glob1 e [] ''*.csv''
      else concat (map (\<lambda>d. map (join d) (glob1 e d ''*.csv''))
             (if has_magic (glob_dir f) then expand_dirs e (glob_dir f) else [glob_dir f])))"
  by (simp add: csv_paths_def glob_def split_csv_pattern has_magic_csv_pattern glob_dir_neq_pattern)
     (simp add: has_magic_def)

lemma join_empty [simp]: "join [] n = n"
  by (simp add: join_def)

lemma map_join_empty [simp]: "map (join []) ns = ns"
  by (induction ns) simp_all

lemma csv_paths_plain:
  assumes "\<not> has_magic f"
  shows "csv_paths e f = map (join (glob_dir f)) (filter is_csv_entry (scandir e (listed_dir f)))"
  using assms
  by (simp add: csv_paths_eq has_magic_glob_dir glob1_star_csv listed_dir_def)





lemma read_ok_Inr: "read_ok e p \<longleftrightarrow> read_csv e p = Inr (table_of e p)"
  by (cases "read_csv e p") (simp_all add: read_ok_def table_of_def)

lemma load_loop_ok:
  "\<forall>p\<in>set ps. read_ok e p \<Longrightarrow>
     load_loop e ps dfs log = (Inr (fold (store e) ps dfs), log @ map ReadCsv ps)"
proof (induction ps arbitrary: dfs log)
  case Nil
  then show ?case by simp
next
  case (Cons p ps)
  from Cons.prems have "read_csv e p = Inr (table_of e p)" by (simp add: read_ok_Inr)
  moreover from Cons.prems have "\<forall>q\<in>set ps. read_ok e q" by simp
  ultimately show ?case
    by (simp add: Cons.IH store_def key_of_def)
qed

lemma load_loop_fail:
  "\<forall>p\<in>set ps1. read_ok e p \<Longrightarrow> read_csv e q = Inl ex \<Longrightarrow>
     load_loop e (ps1 @ q # ps2) dfs log =
       (Inl (RuntimeError (msg_read_error q ex) ex), log @ map ReadCsv (ps1 @ [q]))"
proof (induction ps1 arbitrary: dfs log)
  case Nil
  then show ?case by simp
next
  case (Cons p ps1)
  from Cons.prems have "read_csv e p = Inr (table_of e p)" by (simp add: read_ok_Inr)
  moreover from Cons.prems have "\<forall>q\<in>set ps1. read_ok e q" by simp
  ultimately show ?case
    using Cons.prems(2) by (simp add: Cons.IH)
qed

lemma first_failure:
  assumes "\<exists>p\<in>set ps. \<not> read_ok e p"
  obtains ps1 q ps2 ex where "ps = ps1 @ q # ps2" "\<forall>p\<in>set ps1. read_ok e p" "read_csv e q = Inl ex"
proof -
  from assms obtain ps1 q ps2 where d: "ps = ps1 @ q # ps2" "\<not> read_ok e q" "\<forall>p\<in>set ps1. \<not> \<not> read_ok e p"
    using split_list_first_prop [of ps "\<lambda>p. \<not> read_ok e p"] by blast
  from d(2) obtain ex where "read_csv e q = Inl ex"
    by (cases "read_csv e q") (simp_all add: read_ok_def)
  with d that show ?thesis by simp
qed

lemma load_loop_Inr_all_ok:
  assumes "fst (load_loop e ps dfs log) = Inr m"
  shows "\<forall>p\<in>set ps. read_ok e p"
proof (rule ccontr)
  assume "\<not> (\<forall>p\<in>set ps. read_ok e p)"
  then have "\<exists>p\<in>set ps. \<not> read_ok e p" by simp
  then obtain ps1 q ps2 ex where "ps = ps1 @ q # ps2" "\<forall>p\<in>set ps1. read_ok e p" "read_csv e q = Inl ex"
    by (rule first_failure)
  then have "fst (load_loop e ps dfs log) = Inl (RuntimeError (msg_read_error q ex) ex)"
    by (simp add: load_loop_fail)
  with assms show False by simp
qed

lemma map_of_fold_store:
  "map_of (fold (store e) ps dfs) =
     map_of dfs ++ map_of (rev (map (\<lambda>p. (key_of p, table_of e p)) ps))"
  by (induction ps arbitrary: dfs) (simp_all add: store_def update_conv')

lemma distinct_fold_store:
  "distinct (map fst dfs) \<Longrightarrow> distinct (map fst (fold (store e) ps dfs))"
  by (induction ps arbitrary: dfs) (simp_all add: store_def distinct_update)

lemma keys_fold_store:
  "fst ` set (fold (store e) ps dfs) = fst ` set dfs \<union> key_of ` set ps"
  by (induction ps arbitrary: dfs) (auto simp: store_def dom_update)

lemma map_of_rev_last:
  assumes "k \<in> fst ` set kvs"
  shows "\<exists>l<length kvs. fst (kvs ! l) = k \<and> (\<forall>l'. l < l' \<and> l' < length kvs \<longrightarrow> fst (kvs ! l') \<noteq> k)
           \<and> map_of (rev kvs) k = Some (snd (kvs ! l))"
  using assms
proof (induction kvs rule: rev_induct)
  case Nil
  then show ?case by simp
next
  case (snoc x kvs)
  show ?case
  proof (cases "fst x = k")
    case True
    then have "fst ((kvs @ [x]) ! length kvs) = k"
      and "map_of (rev (kvs @ [x])) k = Some (snd ((kvs @ [x]) ! length kvs))"
      by (cases x; simp)+
    moreover have "length kvs < length (kvs @ [x])" by simp
    moreover have "\<forall>l'. length kvs < l' \<and> l' < length (kvs @ [x]) \<longrightarrow> fst ((kvs @ [x]) ! l') \<noteq> k"
      by (auto simp: less_Suc_eq)
    ultimately show ?thesis by blast
  next
    case False
    with snoc.prems have "k \<in> fst ` set kvs" by auto
    then obtain l where l: "l < length kvs" "fst (kvs ! l) = k"
      "\<forall>l'. l < l' \<and> l' < length kvs \<longrightarrow> fst (kvs ! l') \<noteq> k"
      "map_of (rev kvs) k = Some (snd (kvs ! l))"
      using snoc.IH by blast
    have 1: "l < length (kvs @ [x])" using l(1) by simp
    have 2: "fst ((kvs @ [x]) ! l) = k" using l(1,2) by (simp add: nth_append)
    have 3: "\<forall>l'. l < l' \<and> l' < length (kvs @ [x]) \<longrightarrow> fst ((kvs @ [x]) ! l') \<noteq> k"
      using l(3) False by (auto simp: nth_append less_Suc_eq)
    have 4: "map_of (rev (kvs @ [x])) k = Some (snd ((kvs @ [x]) ! l))"
      using l(1,4) False by (cases x) (simp add: nth_append)
    from 1 2 3 4 show ?thesis by blast
  qed
qed

lemma sublist_quoted: "sublist s (quoted s)"
  unfolding sublist_def quoted_def by blast

lemma sublist_prepend: "sublist s t \<Longrightarrow> sublist s (a @ t)"
  unfolding sublist_def by (metis append.assoc)

lemma sublist_postpend: "sublist s t \<Longrightarrow> sublist s (t @ b)"
  unfolding sublist_def by (metis append.assoc)




lemma read_all_csvs_Inr:
  assumes "fst (read_all_csvs e f) = Inr m"
  shows "isdir e f" and "csv_paths e f \<noteq> []" and "\<forall>p\<in>set (csv_paths e f). read_ok e p"
    and "m = fold (store e) (csv_paths e f) []"
    and "snd (read_all_csvs e f) = [IsDir f, Glob (csv_pattern f)] @ map ReadCsv (csv_paths e f)"
proof -
  let ?ps = "csv_paths e f"
  let ?log = "[IsDir f, Glob (csv_pattern f)]"
  from assms show d: "isdir e f" and ne: "?ps \<noteq> []"
    by (auto simp: read_all_csvs_def split: if_splits)
  with assms have run: "fst (load_loop e ?ps [] ?log) = Inr m" by (simp add: read_all_csvs_def)
  then show ok: "\<forall>p\<in>set ?ps. read_ok e p" by (rule load_loop_Inr_all_ok)
  then have l: "load_loop e ?ps [] ?log = (Inr (fold (store e) ?ps []), ?log @ map ReadCsv ?ps)"
    by (rule load_loop_ok)
  with run show "m = fold (store e) ?ps []" by simp
  from l d ne show "snd (read_all_csvs e f) = ?log @ map ReadCsv ?ps"
    by (simp add: read_all_csvs_def)
qed

lemma one_entry_for_key:
  "distinct (map fst m) \<Longrightarrow> k \<in> fst ` set m \<Longrightarrow> length (filter (\<lambda>kv. fst kv = k) m) = 1"
proof (induction m)
  case Nil
  then show ?case by simp
next
  case (Cons x m)
  show ?case
  proof (cases "fst x = k")
    case True
    with Cons.prems(1) have "k \<notin> fst ` set m" by simp
    then have "\<forall>kv\<in>set m. fst kv \<noteq> k" by (auto simp: image_iff)
    then have "filter (\<lambda>kv. fst kv = k) m = []" by (simp add: filter_empty_conv)
    with True show ?thesis by simp
  next
    case False
    with Cons.prems have "distinct (map fst m)" "k \<in> fst ` set m" by auto
    then have "length (filter (\<lambda>kv. fst kv = k) m) = 1" by (rule Cons.IH)
    with False show ?thesis by simp
  qed
qed

lemma read_all_csvs_first_failure:
  assumes "isdir e f" and "\<exists>p\<in>set (csv_paths e f). \<not> read_ok e p"
  obtains before q after ex where
    "csv_paths e f = before @ q # after" "\<forall>p\<in>set before. read_ok e p" "read_csv e q = Inl ex"
    "read_all_csvs e f =
       (Inl (RuntimeError (msg_read_error q ex) ex),
        [IsDir f, Glob (csv_pattern f)] @ map ReadCsv (before @ [q]))"
proof -
  let ?log = "[IsDir f, Glob (csv_pattern f)]"
  from assms(2) obtain before q after ex where d: "csv_paths e f = before @ q # after"
    "\<forall>p\<in>set before. read_ok e p" "read_csv e q = Inl ex"
    by (rule first_failure)
  from d(2,3) have "load_loop e (before @ q # after) [] ?log =
      (Inl (RuntimeError (msg_read_error q ex) ex), ?log @ map ReadCsv (before @ [q]))"
    by (rule load_loop_fail)
  with assms(1) d(1) have "read_all_csvs e f =
      (Inl (RuntimeError (msg_read_error q ex) ex), ?log @ map ReadCsv (before @ [q]))"
    by (simp add: read_all_csvs_def)
  with d that show ?thesis by blast
qed

text \<open>
  Where the guard of lines 40 and 41 does what the docstring says: for a folder path
  without wildcard characters, a directory none of whose entries ends with
  \<^verbatim>\<open>.csv\<close> makes the call raise \<^verbatim>\<open>ValueError\<close>, and no file is read.
\<close>

lemma plain_directory_without_csv:
  assumes "isdir e f" and "\<not> has_magic f"
    and "\<forall>n\<in>set (scandir e (listed_dir f)). \<not> endswith n ''.csv''"
  shows "read_all_csvs e f =
           (Inl (ValueError (msg_no_csv f)), [IsDir f, Glob (csv_pattern f)])"
proof -
  from assms(3) have "filter is_csv_entry (scandir e (listed_dir f)) = []"
    by (simp add: filter_empty_conv is_csv_entry_def)
  with assms(2) have "csv_paths e f = []" by (simp add: csv_paths_plain)
  with assms(1) show ?thesis by (simp add: read_all_csvs_def)
qed

section \<open>The claims\<close>

text \<open>
  Claim C1: for every directory that holds only valid CSV files (with pairwise distinct
  names without extension) the call returns one entry per file, keyed by the file name
  without its extension and holding the table read from that file.

  The code does not do this. The directory d/ holds two well-formed files, .a.csv and
  b.csv; the enumeration \<^verbatim>\<open>glob.glob("d/*.csv")\<close> leaves out the name that begins with
  a dot, and the call returns the single entry b. The docstring of the function says it
  reads every CSV file of the folder.
\<close>

theorem hidden_csv_file_gets_no_entry:
  "isdir fs_hidden ''d''
   \<and> scandir fs_hidden ''d'' = [''.a.csv'', ''b.csv'']
   \<and> endswith ''.a.csv'' ''.csv'' \<and> endswith ''b.csv'' ''.csv''
   \<and> read_csv fs_hidden ''d/.a.csv'' = Inr vendas_table
   \<and> read_csv fs_hidden ''d/b.csv'' = Inr sales_table
   \<and> fst (read_all_csvs fs_hidden ''d'') = Inr [(''b'', sales_table)]"
  by code_simp

text \<open>
  Claim C2. When reading some enumerated path fails, the call raises \<^verbatim>\<open>RuntimeError\<close>
  for the first path in enumeration order whose read fails: the message holds that path
  and the text of the underlying exception, the exception itself is chained as the cause,
  no dictionary is returned, and no path after the failing one is read.
\<close>

theorem parse_failure_aborts:
  assumes "isdir e folder_path"
    and "p \<in> set (csv_paths e folder_path)"
    and "read_csv e p = Inl ex0"
  shows "\<exists>before q after ex.
           csv_paths e folder_path = before @ q # after
           \<and> list_all (read_ok e) before
           \<and> read_csv e q = Inl ex
           \<and> read_all_csvs e folder_path =
               (Inl (RuntimeError (msg_read_error q ex) ex),
                [IsDir folder_path, Glob (csv_pattern folder_path)] @ map ReadCsv (before @ [q]))
           \<and> sublist q (msg_read_error q ex)
           \<and> sublist (exn_str ex) (msg_read_error q ex)"
proof -
  from assms(3) have "\<not> read_ok e p" by (simp add: read_ok_def)
  with assms(2) have "\<exists>p\<in>set (csv_paths e folder_path). \<not> read_ok e p" by blast
  with assms(1) obtain before q after ex where d:
    "csv_paths e folder_path = before @ q # after" "\<forall>p\<in>set before. read_ok e p"
    "read_csv e q = Inl ex"
    "read_all_csvs e folder_path =
       (Inl (RuntimeError (msg_read_error q ex) ex),
        [IsDir folder_path, Glob (csv_pattern folder_path)] @ map ReadCsv (before @ [q]))"
    by (rule read_all_csvs_first_failure)
  have s1: "sublist q (msg_read_error q ex)"
    unfolding msg_read_error_def by (intro sublist_prepend sublist_postpend sublist_quoted)
  have s2: "sublist (exn_str ex) (msg_read_error q ex)"
    unfolding msg_read_error_def by (intro sublist_prepend) simp
  from d(2) have "list_all (read_ok e) before" by (simp add: list_all_iff)
  with d(1,3,4) s1 s2 show ?thesis by blast
qed

theorem parse_failure_aborts_witness:
  "isdir fs_bad ''in'' \<and> ''in/bad.csv'' \<in> set (csv_paths fs_bad ''in'')
   \<and> read_csv fs_bad ''in/bad.csv'' = Inl parser_error
   \<and> read_all_csvs fs_bad ''in'' =
       (Inl (RuntimeError (''Erro ao ler 'in/bad.csv': '' @ exn_str parser_error) parser_error),
        [IsDir ''in'', Glob ''in/*.csv'', ReadCsv ''in/good.csv'', ReadCsv ''in/bad.csv''])"
proof -
  have h1: "isdir fs_bad ''in''" by code_simp
  have ps: "csv_paths fs_bad ''in'' = [''in/good.csv'', ''in/bad.csv'', ''in/late.csv'']" by code_simp
  have h2: "''in/bad.csv'' \<in> set (csv_paths fs_bad ''in'')" unfolding ps by simp
  have h3: "read_csv fs_bad ''in/bad.csv'' = Inl parser_error" by code_simp
  have g: "read_ok fs_bad ''in/good.csv''" by code_simp
  have m: "msg_read_error ''in/bad.csv'' parser_error = ''Erro ao ler 'in/bad.csv': '' @ exn_str parser_error"
    by code_simp
  have pt: "csv_pattern ''in'' = ''in/*.csv''" by code_simp
  from parse_failure_aborts [OF h1 h2 h3] obtain before q after ex where
    d: "csv_paths fs_bad ''in'' = before @ q # after" "list_all (read_ok fs_bad) before"
       "read_csv fs_bad q = Inl ex"
       "read_all_csvs fs_bad ''in'' =
          (Inl (RuntimeError (msg_read_error q ex) ex),
           [IsDir ''in'', Glob (csv_pattern ''in'')] @ map ReadCsv (before @ [q]))"
    by blast
  from d(1) have "before = [] \<and> q = ''in/good.csv'' \<or> before = [''in/good.csv''] \<and> q = ''in/bad.csv''
      \<or> before = [''in/good.csv'', ''in/bad.csv''] \<and> q = ''in/late.csv''"
    unfolding ps by (auto simp: Cons_eq_append_conv)
  moreover have "read_csv fs_bad ''in/good.csv'' \<noteq> Inl ex" by code_simp
  moreover have "\<not> read_ok fs_bad ''in/bad.csv''" by code_simp
  ultimately have "before = [''in/good.csv''] \<and> q = ''in/bad.csv''"
    using d(2,3) by auto
  with d(3,4) h3 have "read_all_csvs fs_bad ''in'' =
       (Inl (RuntimeError (msg_read_error ''in/bad.csv'' parser_error) parser_error),
        [IsDir ''in'', Glob (csv_pattern ''in''), ReadCsv ''in/good.csv'', ReadCsv ''in/bad.csv''])"
    by simp
  with h1 h2 h3 show ?thesis unfolding m pt by simp
qed

text \<open>
  Claim C3. When \<^verbatim>\<open>folder_path\<close> is not an existing directory, the call raises
  \<^verbatim>\<open>FileNotFoundError\<close> with a message that holds the path, and the only call made
  to the file system is the directory test: no enumeration and no read precede it.
\<close>

theorem not_found_before_enumeration:
  assumes "\<not> isdir e folder_path"
  shows "read_all_csvs e folder_path =
           (Inl (FileNotFoundError (msg_not_found folder_path)), [IsDir folder_path])
         \<and> sublist folder_path (msg_not_found folder_path)"
proof -
  have "sublist folder_path (msg_not_found folder_path)"
    unfolding msg_not_found_def by (intro sublist_prepend sublist_quoted)
  with assms show ?thesis by (simp add: read_all_csvs_def)
qed

theorem not_found_before_enumeration_witness:
  "\<not> isdir fs_data ''missing/''
   \<and> read_all_csvs fs_data ''missing/'' =
       (Inl (FileNotFoundError (''Pasta n'' @ [CHR 0xE3] @ ''o encontrada: '' @ [CHR 0x27] @ ''missing/'' @ [CHR 0x27])),
        [IsDir ''missing/''])"
proof -
  have h: "\<not> isdir fs_data ''missing/''" by (simp add: fs_data_def)
  from not_found_before_enumeration [OF h] h show ?thesis
    by (simp add: msg_not_found_def quoted_def)
qed

text \<open>
  Claim C4: for every existing directory in which no entry ends with \<^verbatim>\<open>.csv\<close> (an
  empty directory, or one with other files only) the call raises \<^verbatim>\<open>ValueError\<close>
  saying that no .csv file was found there, and reads nothing.

  The code does not do this when the folder path holds a wildcard character: the path
  is tested as a literal name by \<^verbatim>\<open>os.path.isdir\<close> and then handed to glob as a
  pattern. The empty directory named \<^verbatim>\<open>a*\<close> stands beside ab/, which holds x.csv; the
  enumeration \<^verbatim>\<open>glob.glob("a*/*.csv")\<close> finds ab/x.csv, and the call reads it and returns
  a dictionary. (For a path without wildcard characters the guard works:
  \<open>plain_directory_without_csv\<close>.)
\<close>

theorem empty_wildcard_directory_returns:
  "isdir fs_star ''a*''
   \<and> scandir fs_star ''a*'' = []
   \<and> csv_paths fs_star ''a*'' = [''ab/x.csv'']
   \<and> read_all_csvs fs_star ''a*'' =
       (Inr [(''x'', sales_table)], [IsDir ''a*'', Glob ''a*/*.csv'', ReadCsv ''ab/x.csv''])"
  by code_simp

text \<open>
  Claim C5: for every existing directory, the entries the call processes are exactly the
  entries directly inside it whose name ends with the suffix \<^verbatim>\<open>.csv\<close>, and none from
  a subdirectory.

  The code does not do this. In d/, which holds .a.csv and b.csv, the name .a.csv ends
  with the suffix, yet \<^verbatim>\<open>glob.glob("d/*.csv")\<close> yields d/b.csv only: .a.csv is neither
  enumerated nor read. And for the folder path \<^verbatim>\<open>a*\<close>, whose directory is empty, the
  call processes ab/x.csv, which is not inside that directory.
\<close>

theorem hidden_csv_entry_not_processed:
  "isdir fs_hidden ''d''
   \<and> ''.a.csv'' \<in> set (scandir fs_hidden ''d'') \<and> endswith ''.a.csv'' ''.csv''
   \<and> csv_paths fs_hidden ''d'' = [''d/b.csv'']
   \<and> snd (read_all_csvs fs_hidden ''d'') = [IsDir ''d'', Glob ''d/*.csv'', ReadCsv ''d/b.csv'']
   \<and> isdir fs_star ''a*'' \<and> scandir fs_star ''a*'' = []
   \<and> snd (read_all_csvs fs_star ''a*'') = [IsDir ''a*'', Glob ''a*/*.csv'', ReadCsv ''ab/x.csv'']"
  by code_simp



text \<open>
  Claim C7. When two enumerated paths derive the same key, the returned dictionary
  holds exactly one entry under that key, and its table is the one read from the last
  path in enumeration order that derives the key, which is the later path of the pair
  or a path after it.
\<close>

theorem last_write_wins:
  assumes "fst (read_all_csvs e folder_path) = Inr m"
    and "i < j" and "j < length (csv_paths e folder_path)"
    and "key_of (csv_paths e folder_path ! i) = key_of (csv_paths e folder_path ! j)"
  shows "\<exists>l df. j \<le> l \<and> l < length (csv_paths e folder_path)
           \<and> key_of (csv_paths e folder_path ! l) = key_of (csv_paths e folder_path ! j)
           \<and> (\<forall>l'. l < l' \<and> l' < length (csv_paths e folder_path)
                  \<longrightarrow> key_of (csv_paths e folder_path ! l') \<noteq> key_of (csv_paths e folder_path ! j))
           \<and> read_csv e (csv_paths e folder_path ! l) = Inr df
           \<and> map_of m (key_of (csv_paths e folder_path ! j)) = Some df
           \<and> length (filter (\<lambda>kv. fst kv = key_of (csv_paths e folder_path ! j)) m) = 1"
proof -
  let ?ps = "csv_paths e folder_path"
  let ?k = "key_of (?ps ! j)"
  let ?kvs = "map (\<lambda>p. (key_of p, table_of e p)) ?ps"
  from assms(1) have ok: "\<forall>p\<in>set ?ps. read_ok e p" and m: "m = fold (store e) ?ps []"
    by (rule read_all_csvs_Inr(3), rule read_all_csvs_Inr(4))
  from assms(3) have "?k \<in> fst ` set ?kvs" by (force simp: image_iff)
  then obtain l where l: "l < length ?kvs" "fst (?kvs ! l) = ?k"
    "\<forall>l'. l < l' \<and> l' < length ?kvs \<longrightarrow> fst (?kvs ! l') \<noteq> ?k"
    "map_of (rev ?kvs) ?k = Some (snd (?kvs ! l))"
    using map_of_rev_last [of ?k ?kvs] by blast
  from l(1) have ll: "l < length ?ps" by simp
  from l(2) ll have kl: "key_of (?ps ! l) = ?k" by simp
  from l(3) have last: "\<forall>l'. l < l' \<and> l' < length ?ps \<longrightarrow> key_of (?ps ! l') \<noteq> ?k" by simp
  have jl: "j \<le> l"
  proof (rule ccontr)
    assume "\<not> j \<le> l"
    then have "l < j" by simp
    with last assms(3) show False by blast
  qed
  from ok ll have rd: "read_csv e (?ps ! l) = Inr (table_of e (?ps ! l))"
    by (simp add: read_ok_Inr [symmetric])
  from l(4) ll have look: "map_of m ?k = Some (table_of e (?ps ! l))"
    by (simp add: m map_of_fold_store)
  have "distinct (map fst m)" unfolding m by (rule distinct_fold_store) simp
  moreover from look have "?k \<in> fst ` set m"
    by (metis map_of_eq_None_iff option.distinct(1))
  ultimately have one: "length (filter (\<lambda>kv. fst kv = ?k) m) = 1"
    by (rule one_entry_for_key)
  from jl ll kl last rd look one show ?thesis by blast
qed

theorem last_write_wins_witness:
  "csv_paths fs_twins ''a*'' = [''a*/x.csv'', ''ab/x.csv'']
   \<and> key_of ''a*/x.csv'' = ''x'' \<and> key_of ''ab/x.csv'' = ''x''
   \<and> read_csv fs_twins ''a*/x.csv'' = Inr vendas_table
   \<and> read_csv fs_twins ''ab/x.csv'' = Inr sales_table
   \<and> fst (read_all_csvs fs_twins ''a*'') = Inr [(''x'', sales_table)]
   \<and> map_of [(''x'', sales_table)] ''x'' = Some sales_table"
proof -
  have ps: "csv_paths fs_twins ''a*'' = [''a*/x.csv'', ''ab/x.csv'']" by code_simp
  have k: "key_of ''a*/x.csv'' = ''x''" "key_of ''ab/x.csv'' = ''x''" by code_simp+
  have r: "read_csv fs_twins ''a*/x.csv'' = Inr vendas_table"
    "read_csv fs_twins ''ab/x.csv'' = Inr sales_table" by code_simp+
  have h1: "fst (read_all_csvs fs_twins ''a*'') = Inr [(''x'', sales_table)]" by code_simp
  have h2: "(0::nat) < 1" by simp
  have h3: "1 < length (csv_paths fs_twins ''a*'')" unfolding ps by simp
  have h4: "key_of (csv_paths fs_twins ''a*'' ! 0) = key_of (csv_paths fs_twins ''a*'' ! 1)"
    unfolding ps by (simp add: k)
  from last_write_wins [OF h1 h2 h3 h4] obtain l df where
    l: "1 \<le> l" "l < length (csv_paths fs_twins ''a*'')"
       "read_csv fs_twins (csv_paths fs_twins ''a*'' ! l) = Inr df"
       "map_of [(''x'', sales_table)] (key_of (csv_paths fs_twins ''a*'' ! 1)) = Some df"
    by blast
  from l(1,2) have "l = 1" unfolding ps by simp
  with l(3,4) have "map_of [(''x'', sales_table)] ''x'' = Some sales_table"
    unfolding ps by (simp add: r k)
  with ps k r h1 show ?thesis by simp
qed

text \<open>
  Claim C9. A call that returns (raises nothing) returns a dictionary with at least one
  key.
\<close>

theorem result_nonempty:
  assumes "fst (read_all_csvs e folder_path) = Inr m"
  shows "m \<noteq> []"
proof -
  let ?ps = "csv_paths e folder_path"
  let ?log = "[IsDir folder_path, Glob (csv_pattern folder_path)]"
  from assms have ne: "?ps \<noteq> []" and run: "fst (load_loop e ?ps [] ?log) = Inr m"
    by (auto simp: read_all_csvs_def split: if_splits)
  from run have "\<forall>p\<in>set ?ps. read_ok e p" by (rule load_loop_Inr_all_ok)
  then have "load_loop e ?ps [] ?log = (Inr (fold (store e) ?ps []), ?log @ map ReadCsv ?ps)"
    by (rule load_loop_ok)
  with run have "m = fold (store e) ?ps []" by simp
  then have "fst ` set m = key_of ` set ?ps" by (simp add: keys_fold_store)
  with ne show ?thesis by auto
qed

theorem result_nonempty_witness:
  "fst (read_all_csvs fs_data ''data'') = Inr [(''sales'', [(''id'', [1, 2]), (''amount'', [10, 20])])]
   \<and> [(''sales'', [(''id'', [1, 2]), (''amount'', [10, 20])])] \<noteq> ([] :: (string \<times> table) list)"
proof -
  have h: "fst (read_all_csvs fs_data ''data'') = Inr [(''sales'', [(''id'', [1, 2]), (''amount'', [10, 20])])]"
    by code_simp
  from result_nonempty [OF h] h show ?thesis by simp
qed

text \<open>
  Claim C10, amended. In a directory whose path holds none of the characters \<^verbatim>\<open>*\<close>,
  \<^verbatim>\<open>?\<close> and \<^verbatim>\<open>[\<close>, a subdirectory whose name ends with \<^verbatim>\<open>.csv\<close> and does not begin
  with a dot is enumerated like a file: the loader never asks what kind of entry a name
  is. When \<^verbatim>\<open>pandas.read_csv\<close> raises for its path, the call raises the wrapping
  \<^verbatim>\<open>RuntimeError\<close> for the first enumerated path whose read fails; when every path
  enumerated before the subdirectory reads well, that first path is the subdirectory's,
  it is the last path handed to the parser, and the wrapped exception is the one raised
  for it.

  As stated (every subdirectory whose name ends with \<^verbatim>\<open>.csv\<close> makes the call fail) the
  claim fails twice. A subdirectory named \<^verbatim>\<open>.cache.csv\<close> is not enumerated, and the
  call returns. And in a directory named \<^verbatim>\<open>~\<close> the path of the subdirectory sub.csv is
  \<^verbatim>\<open>~/sub.csv\<close>, for which pandas reads the file sub.csv of the home directory, and
  the call returns.
\<close>

theorem csv_named_subdirectory_fails:
  assumes "isdir e folder_path" and "\<not> has_magic folder_path"
    and "n \<in> set (scandir e (listed_dir folder_path))" and "is_csv_entry n"
    and "isdir e (join (glob_dir folder_path) n)"
    and "read_csv e (join (glob_dir folder_path) n) = Inl ex0"
  shows "join (glob_dir folder_path) n \<in> set (csv_paths e folder_path)
         \<and> (\<exists>before q after ex.
               csv_paths e folder_path = before @ q # after
               \<and> join (glob_dir folder_path) n \<notin> set before
               \<and> list_all (read_ok e) before
               \<and> read_csv e q = Inl ex
               \<and> read_all_csvs e folder_path =
                   (Inl (RuntimeError (msg_read_error q ex) ex),
                    [IsDir folder_path, Glob (csv_pattern folder_path)]
                    @ map ReadCsv (before @ [q]))
               \<and> (list_all (read_ok e)
                     (takeWhile (\<lambda>p. p \<noteq> join (glob_dir folder_path) n)
                        (csv_paths e folder_path))
                    \<longrightarrow> q = join (glob_dir folder_path) n \<and> ex = ex0))"
proof -
  let ?sub = "join (glob_dir folder_path) n"
  from assms(2,3,4) have mem: "?sub \<in> set (csv_paths e folder_path)"
    by (simp add: csv_paths_plain)
  from assms(6) have bad: "\<not> read_ok e ?sub" by (simp add: read_ok_def)
  with mem have "\<exists>p\<in>set (csv_paths e folder_path). \<not> read_ok e p" by blast
  with assms(1) obtain before q after ex where d:
    "csv_paths e folder_path = before @ q # after" "\<forall>p\<in>set before. read_ok e p"
    "read_csv e q = Inl ex"
    "read_all_csvs e folder_path =
       (Inl (RuntimeError (msg_read_error q ex) ex),
        [IsDir folder_path, Glob (csv_pattern folder_path)] @ map ReadCsv (before @ [q]))"
    by (rule read_all_csvs_first_failure)
  from d(2) bad have nb: "?sub \<notin> set before" by blast
  from d(2) have ok: "list_all (read_ok e) before" by (simp add: list_all_iff)
  have first: "q = ?sub \<and> ex = ex0"
    if all: "list_all (read_ok e) (takeWhile (\<lambda>p. p \<noteq> ?sub) (csv_paths e folder_path))"
  proof -
    have "q = ?sub"
    proof (rule ccontr)
      assume neq: "q \<noteq> ?sub"
      have "takeWhile (\<lambda>p. p \<noteq> ?sub) (before @ q # after) =
          before @ takeWhile (\<lambda>p. p \<noteq> ?sub) (q # after)"
        by (rule takeWhile_append2) (use nb in blast)
      with neq have "q \<in> set (takeWhile (\<lambda>p. p \<noteq> ?sub) (before @ q # after))"
        by simp
      with all d(1) have "read_ok e q" by (simp add: list_all_iff)
      with d(3) show False by (simp add: read_ok_def)
    qed
    with d(3) assms(6) show ?thesis by simp
  qed
  from mem d(1,3,4) nb ok first show ?thesis by blast
qed

theorem csv_named_subdirectory_fails_witness:
  "isdir fs_subdir ''d'' \<and> \<not> has_magic ''d''
   \<and> ''sub.csv'' \<in> set (scandir fs_subdir (listed_dir ''d'')) \<and> is_csv_entry ''sub.csv''
   \<and> isdir fs_subdir ''d/sub.csv''
   \<and> read_csv fs_subdir ''d/sub.csv'' = Inl (is_a_directory ''d/sub.csv'')
   \<and> csv_paths fs_subdir ''d'' = [''d/a.csv'', ''d/sub.csv'', ''d/z.csv'']
   \<and> read_all_csvs fs_subdir ''d'' =
       (Inl (RuntimeError
              (''Erro ao ler 'd/sub.csv': [Errno 21] Is a directory: 'd/sub.csv'' @ [CHR 0x27])
              (is_a_directory ''d/sub.csv'')),
        [IsDir ''d'', Glob ''d/*.csv'', ReadCsv ''d/a.csv'', ReadCsv ''d/sub.csv''])"
proof -
  have h1: "isdir fs_subdir ''d''" by code_simp
  have h2: "\<not> has_magic ''d''" by code_simp
  have h3: "''sub.csv'' \<in> set (scandir fs_subdir (listed_dir ''d''))" by code_simp
  have h4: "is_csv_entry ''sub.csv''" by code_simp
  have j: "join (glob_dir ''d'') ''sub.csv'' = ''d/sub.csv''" by code_simp
  have h5: "isdir fs_subdir (join (glob_dir ''d'') ''sub.csv'')" unfolding j by code_simp
  have r: "read_csv fs_subdir ''d/sub.csv'' = Inl (is_a_directory ''d/sub.csv'')" by code_simp
  have h6: "read_csv fs_subdir (join (glob_dir ''d'') ''sub.csv'') = Inl (is_a_directory ''d/sub.csv'')"
    unfolding j by (rule r)
  have ps: "csv_paths fs_subdir ''d'' = [''d/a.csv'', ''d/sub.csv'', ''d/z.csv'']" by code_simp
  have tw: "takeWhile (\<lambda>p. p \<noteq> ''d/sub.csv'') [''d/a.csv'', ''d/sub.csv'', ''d/z.csv''] = [''d/a.csv'']"
    by simp
  have a: "read_ok fs_subdir ''d/a.csv''" by code_simp
  have pt: "csv_pattern ''d'' = ''d/*.csv''" by code_simp
  have m: "msg_read_error ''d/sub.csv'' (is_a_directory ''d/sub.csv'') =
      ''Erro ao ler 'd/sub.csv': [Errno 21] Is a directory: 'd/sub.csv'' @ [CHR 0x27]"
    by code_simp
  from csv_named_subdirectory_fails [OF h1 h2 h3 h4 h5 h6] obtain before q after ex where
    d: "csv_paths fs_subdir ''d'' = before @ q # after"
       "read_all_csvs fs_subdir ''d'' =
          (Inl (RuntimeError (msg_read_error q ex) ex),
           [IsDir ''d'', Glob (csv_pattern ''d'')] @ map ReadCsv (before @ [q]))"
       "list_all (read_ok fs_subdir)
          (takeWhile (\<lambda>p. p \<noteq> ''d/sub.csv'') (csv_paths fs_subdir ''d''))
        \<longrightarrow> q = ''d/sub.csv'' \<and> ex = is_a_directory ''d/sub.csv''"
    unfolding j by blast
  from d(3) have q: "q = ''d/sub.csv''" "ex = is_a_directory ''d/sub.csv''"
    unfolding ps tw using a by simp_all
  from d(1) have "before = [''d/a.csv'']"
    unfolding ps q by (auto simp: Cons_eq_append_conv)
  with d(2) have "read_all_csvs fs_subdir ''d'' =
       (Inl (RuntimeError (msg_read_error ''d/sub.csv'' (is_a_directory ''d/sub.csv''))
              (is_a_directory ''d/sub.csv'')),
        [IsDir ''d'', Glob ''d/*.csv'', ReadCsv ''d/a.csv'', ReadCsv ''d/sub.csv''])"
    unfolding q pt by simp
  with h1 h2 h3 h4 h5 r ps show ?thesis unfolding j m by simp
qed

theorem csv_named_subdirectory_fails_counterexample:
  "isdir fs_hidden_dir ''d''
   \<and> ''.cache.csv'' \<in> set (scandir fs_hidden_dir ''d'') \<and> endswith ''.cache.csv'' ''.csv''
   \<and> isdir fs_hidden_dir ''d/.cache.csv''
   \<and> read_all_csvs fs_hidden_dir ''d'' =
       (Inr [(''b'', sales_table)], [IsDir ''d'', Glob ''d/*.csv'', ReadCsv ''d/b.csv''])
   \<and> isdir fs_tilde ''~''
   \<and> ''sub.csv'' \<in> set (scandir fs_tilde ''~'') \<and> endswith ''sub.csv'' ''.csv''
   \<and> isdir fs_tilde ''~/sub.csv''
   \<and> read_all_csvs fs_tilde ''~'' =
       (Inr [(''sub'', sales_table)], [IsDir ''~'', Glob ''~/*.csv'', ReadCsv ''~/sub.csv''])"
  by code_simp

end
